theory Spec2Isabelle
  imports Complex_Main "HOL-Library.Multiset"
begin

section \<open>Piece catalogue\<close>

text \<open>
  The seven tetromino kinds are the keys of the dictionary \<open>TETROMINOES\<close> of
  \<open>main.py\<close>, in insertion order. The constructors carry the suffix \<open>_k\<close>
  because \<open>O\<close> is the relation composition of HOL.
\<close>

datatype kind = I_k | J_k | L_k | O_k | S_k | T_k | Z_k

fun TETROMINOES :: "kind \<Rightarrow> (int \<times> int) list list" where
  "TETROMINOES I_k =
     [[(0, 1), (1, 1), (2, 1), (3, 1)],
      [(2, 0), (2, 1), (2, 2), (2, 3)],
      [(0, 2), (1, 2), (2, 2), (3, 2)],
      [(1, 0), (1, 1), (1, 2), (1, 3)]]"
| "TETROMINOES J_k =
     [[(0, 0), (0, 1), (1, 1), (2, 1)],
      [(1, 0), (2, 0), (1, 1), (1, 2)],
      [(0, 1), (1, 1), (2, 1), (2, 2)],
      [(1, 0), (1, 1), (0, 2), (1, 2)]]"
| "TETROMINOES L_k =
     [[(2, 0), (0, 1), (1, 1), (2, 1)],
      [(1, 0), (1, 1), (1, 2), (2, 2)],
      [(0, 1), (1, 1), (2, 1), (0, 2)],
      [(0, 0), (1, 0), (1, 1), (1, 2)]]"
| "TETROMINOES O_k =
     [[(1, 0), (2, 0), (1, 1), (2, 1)],
      [(1, 0), (2, 0), (1, 1), (2, 1)],
      [(1, 0), (2, 0), (1, 1), (2, 1)],
      [(1, 0), (2, 0), (1, 1), (2, 1)]]"
| "TETROMINOES S_k =
     [[(1, 0), (2, 0), (0, 1), (1, 1)],
      [(1, 0), (1, 1), (2, 1), (2, 2)],
      [(1, 1), (2, 1), (0, 2), (1, 2)],
      [(0, 0), (0, 1), (1, 1), (1, 2)]]"
| "TETROMINOES T_k =
     [[(1, 0), (0, 1), (1, 1), (2, 1)],
      [(1, 0), (1, 1), (2, 1), (1, 2)],
      [(0, 1), (1, 1), (2, 1), (1, 2)],
      [(1, 0), (0, 1), (1, 1), (1, 2)]]"
| "TETROMINOES Z_k =
     [[(0, 0), (1, 0), (1, 1), (2, 1)],
      [(2, 0), (1, 1), (2, 1), (1, 2)],
      [(0, 1), (1, 1), (1, 2), (2, 2)],
      [(1, 0), (0, 1), (1, 1), (0, 2)]]"

text \<open>\<open>list(TETROMINOES.keys())\<close>: the keys in insertion order.\<close>

definition TETROMINOES_keys :: "kind list" where
  "TETROMINOES_keys = [I_k, J_k, L_k, O_k, S_k, T_k, Z_k]"

section \<open>Python exceptions and list indexing\<close>

datatype error = IndexError | AttributeError | OverflowError

text \<open>
  \<open>xs[i]\<close> and \<open>xs[i] = v\<close> on a Python list: a negative index counts from the
  end, and an index outside the list raises \<open>IndexError\<close>.
\<close>

definition py_getitem :: "'a list \<Rightarrow> int \<Rightarrow> error + 'a" where
  "py_getitem xs i =
     (let n = int (length xs); j = (if i < 0 then i + n else i)
      in if 0 \<le> j \<and> j < n then Inr (xs ! nat j) else Inl IndexError)"

definition py_setitem :: "'a list \<Rightarrow> int \<Rightarrow> 'a \<Rightarrow> error + 'a list" where
  "py_setitem xs i v =
     (let n = int (length xs); j = (if i < 0 then i + n else i)
      in if 0 \<le> j \<and> j < n then Inr (xs[nat j := v]) else Inl IndexError)"

section \<open>Piece\<close>

text \<open>
  The dataclass \<open>Piece\<close>. Its fields \<open>x\<close> and \<open>y\<close> are the selectors
  \<open>piece_x\<close> and \<open>piece_y\<close> here, so that \<open>x\<close> and \<open>y\<close> stay variables.
\<close>

datatype piece = Piece (kind: kind) (rotation: int) (piece_x: int) (piece_y: int)

text \<open>
  \<open>Piece.blocks\<close>. The rotation index \<open>rotation % 4\<close> is between 0 and 3 for
  every integer (Python's \<open>%\<close> and HOL's \<open>mod\<close> agree for a positive divisor), and
  every kind has four rotation states, so the lookup never fails.
\<close>

definition blocks :: "piece \<Rightarrow> (int \<times> int) list" where
  "blocks p =
     (let state = TETROMINOES (kind p) ! nat (rotation p mod 4)
      in map (\<lambda>(bx, by). (piece_x p + bx, piece_y p + by)) state)"

definition rotated :: "piece \<Rightarrow> int \<Rightarrow> piece" where
  "rotated p delta = Piece (kind p) ((rotation p + delta) mod 4) (piece_x p) (piece_y p)"

section \<open>Board\<close>

text \<open>
  The class \<open>Board\<close>: its dimensions and the grid, a list of rows, each a list of cells
  holding \<open>None\<close> or a kind. The rows of a grid are distinct list objects (the constructor
  builds each row by its own comprehension, and \<open>clear_lines\<close> inserts a fresh list each
  time), so a write to one row is never seen through another, and the grid is modelled as
  a value.
\<close>

record board =
  width :: int
  height :: int
  hidden :: int
  grid :: "kind option list list"

text \<open>\<open>Board.__init__\<close>; \<open>range(n)\<close> is empty for \<open>n \<le> 0\<close>.\<close>

definition Board_init :: "int \<Rightarrow> int \<Rightarrow> int \<Rightarrow> board" where
  "Board_init w h hid =
     \<lparr>width = w, height = h, hidden = hid,
      grid = replicate (nat (h + hid)) (replicate (nat w) None)\<rparr>"

definition BOARD_WIDTH :: int where "BOARD_WIDTH = 10"
definition BOARD_HEIGHT :: int where "BOARD_HEIGHT = 20"
definition HIDDEN_ROWS :: int where "HIDDEN_ROWS = 4"

definition inside :: "board \<Rightarrow> int \<Rightarrow> int \<Rightarrow> bool" where
  "inside b x y \<longleftrightarrow> 0 \<le> x \<and> x < width b \<and> 0 \<le> y \<and> y < height b + hidden b"

text \<open>\<open>Board.empty\<close> (named \<open>empty_cell\<close>: \<open>empty\<close> is the empty map of HOL).\<close>

definition empty_cell :: "board \<Rightarrow> int \<Rightarrow> int \<Rightarrow> error + bool" where
  "empty_cell b x y =
     (if \<not> inside b x y then Inr False
      else case py_getitem (grid b) y of
             Inl e \<Rightarrow> Inl e
           | Inr row \<Rightarrow>
               (case py_getitem row x of
                  Inl e \<Rightarrow> Inl e
                | Inr c \<Rightarrow> Inr (c = None)))"

text \<open>The loop of \<open>Board.valid\<close> over the blocks, with its early return.\<close>

fun valid_loop :: "board \<Rightarrow> (int \<times> int) list \<Rightarrow> error + bool" where
  "valid_loop b [] = Inr True"
| "valid_loop b ((x, y) # rest) =
     (if \<not> inside b x y then Inr False
      else case empty_cell b x y of
             Inl e \<Rightarrow> Inl e
           | Inr ok \<Rightarrow> if \<not> ok then Inr False else valid_loop b rest)"

definition valid :: "board \<Rightarrow> piece \<Rightarrow> error + bool" where
  "valid b p = valid_loop b (blocks p)"

text \<open>
  The loop of \<open>Board.place\<close>: \<open>self.grid[y][x] = piece.kind\<close> reads row \<open>y\<close> and
  writes its cell \<open>x\<close>, for the blocks that are inside.
\<close>

fun place_loop :: "board \<Rightarrow> kind \<Rightarrow> (int \<times> int) list \<Rightarrow> error + board" where
  "place_loop b k [] = Inr b"
| "place_loop b k ((x, y) # rest) =
     (if inside b x y then
        (case py_getitem (grid b) y of
           Inl e \<Rightarrow> Inl e
         | Inr row \<Rightarrow>
             (case py_setitem row x (Some k) of
                Inl e \<Rightarrow> Inl e
              | Inr row' \<Rightarrow> place_loop (b\<lparr>grid := (grid b)[nat y := row']\<rparr>) k rest))
      else place_loop b k rest)"

definition place :: "board \<Rightarrow> piece \<Rightarrow> error + board" where
  "place b p = place_loop b (kind p) (blocks p)"

text \<open>
  \<open>Board.clear_lines\<close>: the first loop counts the full rows and collects the others,
  the second inserts one fresh empty row at the front per cleared row.
\<close>

definition row_full :: "kind option list \<Rightarrow> bool" where
  "row_full row \<longleftrightarrow> list_all (\<lambda>cell. cell \<noteq> None) row"

fun clear_loop :: "kind option list list \<Rightarrow> nat \<Rightarrow> kind option list list
    \<Rightarrow> nat \<times> kind option list list" where
  "clear_loop [] lines_cleared new_grid = (lines_cleared, new_grid)"
| "clear_loop (row # rest) lines_cleared new_grid =
     (if row_full row then clear_loop rest (lines_cleared + 1) new_grid
      else clear_loop rest lines_cleared (new_grid @ [row]))"

fun insert_loop :: "nat \<Rightarrow> int \<Rightarrow> kind option list list \<Rightarrow> kind option list list" where
  "insert_loop 0 w new_grid = new_grid"
| "insert_loop (Suc n) w new_grid = insert_loop n w (replicate (nat w) None # new_grid)"

definition clear_lines :: "board \<Rightarrow> nat \<times> board" where
  "clear_lines b =
     (let (lines_cleared, new_grid) = clear_loop (grid b) 0 []
      in (lines_cleared, b\<lparr>grid := insert_loop lines_cleared (width b) new_grid\<rparr>))"

text \<open>
  \<open>Board.game_over\<close>: for each hidden row, \<open>any\<close> scans the cells from left to right
  and stops at the first occupied one.
\<close>

fun any_filled :: "kind option list list \<Rightarrow> int \<Rightarrow> int list \<Rightarrow> error + bool" where
  "any_filled g y [] = Inr False"
| "any_filled g y (x # xs) =
     (case py_getitem g y of
        Inl e \<Rightarrow> Inl e
      | Inr row \<Rightarrow>
          (case py_getitem row x of
             Inl e \<Rightarrow> Inl e
           | Inr c \<Rightarrow> if c \<noteq> None then Inr True else any_filled g y xs))"

fun game_over_loop :: "board \<Rightarrow> int list \<Rightarrow> error + bool" where
  "game_over_loop b [] = Inr False"
| "game_over_loop b (y # ys) =
     (case any_filled (grid b) y [0..width b - 1] of
        Inl e \<Rightarrow> Inl e
      | Inr found \<Rightarrow> if found then Inr True else game_over_loop b ys)"

definition game_over :: "board \<Rightarrow> error + bool" where
  "game_over b = game_over_loop b [0..hidden b - 1]"

text \<open>
  The shape the constructor gives a grid: \<open>height + hidden\<close> rows of \<open>width\<close> cells.
\<close>

definition board_ok :: "board \<Rightarrow> bool" where
  "board_ok b \<longleftrightarrow>
     length (grid b) = nat (height b + hidden b) \<and>
     list_all (\<lambda>row. length row = nat (width b)) (grid b)"

section \<open>Game engine\<close>

text \<open>
  The state of \<open>TetrisGame\<close>, without the curses screen. The generator of the
  \<open>random\<close> module is the field \<open>rng\<close>; \<open>random.shuffle\<close> is library code and is
  a parameter \<open>shuffle\<close> of the operations that draw pieces: it takes the generator and a
  list and returns the shuffled list and the generator after the call.

  Times and the drop interval are Python floats. A float is a real number (a double), so
  the fields have type \<open>real\<close>; the float operations that round their result are
  parameters of the operations that use them: \<open>float_pow\<close> is \<open>x ** n\<close> for a float
  \<open>x\<close> and an integer \<open>n\<close>, which rounds and raises \<open>OverflowError\<close> when the result is
  out of range, and \<open>float_sub\<close> is the subtraction of floats, which rounds. Comparison,
  \<open>max\<close> and the product with \<open>1.0\<close> are exact on floats and are those of the reals. A
  float literal is the double nearest to its decimal.
\<close>

record 'r game =
  board :: board
  score :: int
  level :: int
  lines :: int
  bag :: "kind list"
  next_piece :: "kind option"
  current :: "piece option"
  lock_delay :: real
  drop_interval :: real
  last_drop_time :: real
  gameover :: bool
  paused :: bool
  rng :: 'r

type_synonym 'r shuffle = "'r \<Rightarrow> kind list \<Rightarrow> kind list \<times> 'r"

text \<open>What \<open>random.shuffle\<close> guarantees: the result is a rearrangement of the list.\<close>

definition shuffle_ok :: "'r shuffle \<Rightarrow> bool" where
  "shuffle_ok shuffle \<longleftrightarrow> (\<forall>r xs. mset (fst (shuffle r xs)) = mset xs)"

text \<open>An exception raised by a call ends the caller too.\<close>

fun bind_err :: "error + 'a \<Rightarrow> ('a \<Rightarrow> error + 'b) \<Rightarrow> error + 'b" where
  "bind_err (Inl e) f = Inl e"
| "bind_err (Inr v) f = f v"

type_synonym float_pow = "real \<Rightarrow> int \<Rightarrow> error + real"

type_synonym float_sub = "real \<Rightarrow> real \<Rightarrow> real"

text \<open>The values of the float literals \<open>0.05\<close> and \<open>0.85\<close>.\<close>

definition float_0_05 :: real where
  "float_0_05 = 3602879701896397 / 72057594037927936"

definition float_0_85 :: real where
  "float_0_85 = 7656119366529843 / 9007199254740992"

definition level_to_interval :: "float_pow \<Rightarrow> int \<Rightarrow> error + real" where
  "level_to_interval float_pow lv =
     bind_err (float_pow float_0_85 lv)
       (\<lambda>p. let base = 1; interval = max float_0_05 (base * p) in Inr interval)"

definition refill_bag :: "'r shuffle \<Rightarrow> 'r game \<Rightarrow> 'r game" where
  "refill_bag shuffle s =
     (let (pieces, r) = shuffle (rng s) TETROMINOES_keys
      in s\<lparr>bag := bag s @ pieces, rng := r\<rparr>)"

text \<open>\<open>self.bag.pop(0)\<close> raises \<open>IndexError\<close> on an empty list.\<close>

definition next_from_bag :: "'r shuffle \<Rightarrow> 'r game \<Rightarrow> error + (kind \<times> 'r game)" where
  "next_from_bag shuffle s =
     (let s1 = (if bag s = [] then refill_bag shuffle s else s)
      in case bag s1 of
           [] \<Rightarrow> Inl IndexError
         | k # rest \<Rightarrow> Inr (k, s1\<lparr>bag := rest\<rparr>))"

definition spawn_next :: "'r shuffle \<Rightarrow> 'r game \<Rightarrow> error + 'r game" where
  "spawn_next shuffle s =
     bind_err (case next_piece s of
                 None \<Rightarrow> next_from_bag shuffle s
               | Some k \<Rightarrow> Inr (k, s))
       (\<lambda>(k, s1).
          bind_err (next_from_bag shuffle s1)
            (\<lambda>(k', s2).
               let p = Piece k 0 (width (board s2) div 2 - 2) 0;
                   s3 = s2\<lparr>next_piece := Some k', current := Some p\<rparr>
               in bind_err (valid (board s3) p)
                    (\<lambda>ok. Inr (if \<not> ok then s3\<lparr>gameover := True\<rparr> else s3))))"

text \<open>The wall-kick loop of \<open>rotate_current\<close> over the offsets, with its early return.\<close>

fun kick_loop :: "'r game \<Rightarrow> piece \<Rightarrow> int list \<Rightarrow> error + 'r game" where
  "kick_loop s new_piece [] = Inr s"
| "kick_loop s new_piece (dx # rest) =
     (let candidate =
            Piece (kind new_piece) (rotation new_piece) (piece_x new_piece + dx)
              (piece_y new_piece)
      in bind_err (valid (board s) candidate)
           (\<lambda>ok. if ok then Inr (s\<lparr>current := Some candidate\<rparr>)
                  else kick_loop s new_piece rest))"

definition rotate_current :: "int \<Rightarrow> 'r game \<Rightarrow> error + 'r game" where
  "rotate_current delta s =
     (case current s of
        None \<Rightarrow> Inr s
      | Some cur \<Rightarrow> kick_loop s (rotated cur delta) [0, -1, 1, -2, 2])"

definition move_current :: "int \<Rightarrow> int \<Rightarrow> 'r game \<Rightarrow> error + (bool \<times> 'r game)" where
  "move_current dx dy s =
     (case current s of
        None \<Rightarrow> Inr (False, s)
      | Some cur \<Rightarrow>
          (let moved = Piece (kind cur) (rotation cur) (piece_x cur + dx) (piece_y cur + dy)
           in bind_err (valid (board s) moved)
                (\<lambda>ok. if ok then Inr (True, s\<lparr>current := Some moved\<rparr>)
                       else Inr (False, s))))"

definition soft_drop :: "'r game \<Rightarrow> error + (bool \<times> 'r game)" where
  "soft_drop s =
     bind_err (move_current 0 1 s)
       (\<lambda>(moved, s1). Inr (moved, if moved then s1\<lparr>score := score s1 + 1\<rparr> else s1))"

text \<open>
  The scoring branch of \<open>lock_piece\<close>, entered when \<open>cleared\<close> is not zero.
\<close>

definition award :: "float_pow \<Rightarrow> nat \<Rightarrow> 'r game \<Rightarrow> error + 'r game" where
  "award float_pow cleared s =
     (let s1 = (if cleared = 1 then s\<lparr>score := score s + 40 * (level s + 1)\<rparr>
                else if cleared = 2 then s\<lparr>score := score s + 100 * (level s + 1)\<rparr>
                else if cleared = 3 then s\<lparr>score := score s + 300 * (level s + 1)\<rparr>
                else if cleared \<ge> 4 then s\<lparr>score := score s + 1200 * (level s + 1)\<rparr>
                else s);
          s2 = s1\<lparr>lines := lines s1 + int cleared\<rparr>;
          new_level = lines s2 div 10
      in if new_level \<noteq> level s2
         then bind_err (level_to_interval float_pow new_level)
                (\<lambda>interval. Inr (s2\<lparr>level := new_level, drop_interval := interval\<rparr>))
         else Inr s2)"

text \<open>
  \<open>lock_piece\<close>. With no current piece, \<open>self.board.place(None)\<close> raises
  \<open>AttributeError\<close> at \<open>piece.blocks()\<close>.
\<close>

definition lock_piece :: "'r shuffle \<Rightarrow> float_pow \<Rightarrow> 'r game \<Rightarrow> error + 'r game" where
  "lock_piece shuffle float_pow s =
     (case current s of
        None \<Rightarrow> Inl AttributeError
      | Some p \<Rightarrow>
          bind_err (place (board s) p)
            (\<lambda>b1. let (cleared, b2) = clear_lines b1;
                       s1 = s\<lparr>board := b2\<rparr>
                   in bind_err (if cleared \<noteq> 0 then award float_pow cleared s1 else Inr s1)
                        (\<lambda>s2. spawn_next shuffle s2)))"

text \<open>\<open>tick\<close>, with the value of \<open>time.time()\<close> as the parameter \<open>now\<close>.\<close>

definition tick ::
    "'r shuffle \<Rightarrow> float_pow \<Rightarrow> float_sub \<Rightarrow> real \<Rightarrow> 'r game \<Rightarrow> error + 'r game" where
  "tick shuffle float_pow float_sub now s =
     (if paused s \<or> gameover s then Inr (s\<lparr>last_drop_time := now\<rparr>)
      else if float_sub now (last_drop_time s) \<ge> drop_interval s then
        bind_err (move_current 0 1 s)
          (\<lambda>(moved, s1).
             bind_err (if \<not> moved then lock_piece shuffle float_pow s1 else Inr s1)
               (\<lambda>s2. Inr (s2\<lparr>last_drop_time := now\<rparr>)))
      else Inr s)"

text \<open>
  \<open>TetrisGame.__init__\<close>, for the generator \<open>r\<close> and the time \<open>now\<close> at construction.
\<close>

definition TetrisGame_init ::
    "'r shuffle \<Rightarrow> float_pow \<Rightarrow> 'r \<Rightarrow> real \<Rightarrow> error + 'r game" where
  "TetrisGame_init shuffle float_pow r now =
     bind_err (level_to_interval float_pow 0)
       (\<lambda>interval.
          spawn_next shuffle
            \<lparr>board = Board_init BOARD_WIDTH BOARD_HEIGHT HIDDEN_ROWS,
             score = 0, level = 0, lines = 0, bag = [], next_piece = None, current = None,
             lock_delay = 1 / 2, drop_interval = interval, last_drop_time = now,
             gameover = False, paused = False, rng = r\<rparr>)"

section \<open>Sequences of operations\<close>

text \<open>The two mutating operations of a board, and a sequence of them run in order.\<close>

datatype board_op = Place piece | ClearLines

fun board_ops :: "board \<Rightarrow> board_op list \<Rightarrow> error + board" where
  "board_ops b [] = Inr b"
| "board_ops b (Place p # ops) = bind_err (place b p) (\<lambda>b1. board_ops b1 ops)"
| "board_ops b (ClearLines # ops) = board_ops (snd (clear_lines b)) ops"

text \<open>
  The engine operations \<open>move_current\<close>, \<open>rotate_current\<close>, \<open>lock_piece\<close> and
  \<open>tick\<close>, and a sequence of them run in order; the result of a move is dropped.
\<close>

datatype engine_op = Move int int | Rotate int | Lock | Tick real

fun apply_op ::
    "'r shuffle \<Rightarrow> float_pow \<Rightarrow> float_sub \<Rightarrow> engine_op \<Rightarrow> 'r game \<Rightarrow> error + 'r game" where
  "apply_op shuffle float_pow float_sub (Move dx dy) s =
     bind_err (move_current dx dy s) (\<lambda>(moved, s1). Inr s1)"
| "apply_op shuffle float_pow float_sub (Rotate delta) s = rotate_current delta s"
| "apply_op shuffle float_pow float_sub Lock s = lock_piece shuffle float_pow s"
| "apply_op shuffle float_pow float_sub (Tick now) s = tick shuffle float_pow float_sub now s"

fun run_ops ::
    "'r shuffle \<Rightarrow> float_pow \<Rightarrow> float_sub \<Rightarrow> 'r game \<Rightarrow> engine_op list
     \<Rightarrow> error + 'r game" where
  "run_ops shuffle float_pow float_sub s [] = Inr s"
| "run_ops shuffle float_pow float_sub s (c # cs) =
     bind_err (apply_op shuffle float_pow float_sub c s)
       (\<lambda>s1. run_ops shuffle float_pow float_sub s1 cs)"

text \<open>\<open>n\<close> consecutive calls of \<open>next_from_bag\<close>, with the kinds they return.\<close>

fun draws :: "'r shuffle \<Rightarrow> nat \<Rightarrow> 'r game \<Rightarrow> error + (kind list \<times> 'r game)" where
  "draws shuffle 0 s = Inr ([], s)"
| "draws shuffle (Suc n) s =
     bind_err (next_from_bag shuffle s)
       (\<lambda>(k, s1). bind_err (draws shuffle n s1) (\<lambda>(ks, s2). Inr (k # ks, s2)))"

section \<open>Example states\<close>

text \<open>
  A deterministic stand-in for \<open>random.shuffle\<close>: the generator is a counter, and the
  call with counter \<open>r\<close> rotates the list by \<open>r\<close> places.
\<close>

definition rotate_shuffle :: "nat shuffle" where
  "rotate_shuffle r xs = (rotate r xs, Suc r)"

text \<open>
  Float arithmetic for the examples, at the arguments where Python's is exact:
  \<open>x ** 0\<close> is \<open>1.0\<close> and \<open>x ** 1\<close> is \<open>x\<close>, and the difference of two floats is the
  exact one whenever that is a float (as \<open>5.0 - 0.0\<close> is). No example asks for another
  exponent: \<open>small_pow\<close> raises there.
\<close>

definition small_pow :: float_pow where
  "small_pow x n = (if n = 0 then Inr 1 else if n = 1 then Inr x else Inl OverflowError)"

definition exact_sub :: float_sub where
  "exact_sub a b = a - b"

text \<open>
  An engine state with the scores, flags and timing of a fresh game (the drop interval
  of level 0 is \<open>max(0.05, 1.0 * 0.85 ** 0) = 1.0\<close>), for a given board, current piece,
  next kind and bag.
\<close>

definition example_game ::
    "board \<Rightarrow> piece option \<Rightarrow> kind option \<Rightarrow> kind list \<Rightarrow> nat game" where
  "example_game b cur nxt bg =
     \<lparr>board = b, score = 0, level = 0, lines = 0, bag = bg, next_piece = nxt, current = cur,
      lock_delay = 1 / 2, drop_interval = 1, last_drop_time = 0,
      gameover = False, paused = False, rng = 0\<rparr>"

text \<open>
  The default board with two settled cells in row 1, columns 3 and 4, inside the
  footprint of every piece spawned at \<open>(3, 0)\<close> but the I and the O.
\<close>

definition blocked_board :: board where
  "blocked_board =
     (Board_init BOARD_WIDTH BOARD_HEIGHT HIDDEN_ROWS)
       \<lparr>grid := [replicate 10 None,
                 [None, None, None, Some Z_k, Some Z_k, None, None, None, None, None]]
                @ replicate 22 (replicate 10 None)\<rparr>"

text \<open>
  The default board with six settled cells in the bottom row, columns 0 to 5.
\<close>

definition six_filled_board :: board where
  "six_filled_board =
     (Board_init BOARD_WIDTH BOARD_HEIGHT HIDDEN_ROWS)
       \<lparr>grid := replicate 23 (replicate 10 None)
                 @ [replicate 6 (Some O_k) @ replicate 4 None]\<rparr>"

text \<open>
  The default board with column 0 settled from row 4 down to the floor (five I pieces
  stood on end, one on another), and the same board with column 0 settled in every row.
\<close>

definition column_board :: board where
  "column_board =
     (Board_init BOARD_WIDTH BOARD_HEIGHT HIDDEN_ROWS)
       \<lparr>grid := replicate 4 (replicate 10 None)
                 @ replicate 20 (Some I_k # replicate 9 None)\<rparr>"

definition full_column_board :: board where
  "full_column_board =
     (Board_init BOARD_WIDTH BOARD_HEIGHT HIDDEN_ROWS)
       \<lparr>grid := replicate 24 (Some I_k # replicate 9 None)\<rparr>"


section \<open>Python list access on a well-shaped board\<close>

lemma py_getitem_nonneg:
  "0 \<le> i \<Longrightarrow>
   py_getitem xs i = (if i < int (length xs) then Inr (xs ! nat i) else Inl IndexError)"
  by (simp add: py_getitem_def Let_def)

lemma py_setitem_nonneg:
  "0 \<le> i \<Longrightarrow>
   py_setitem xs i v = (if i < int (length xs) then Inr (xs[nat i := v]) else Inl IndexError)"
  by (simp add: py_setitem_def Let_def)

lemma board_ok_row:
  "board_ok b \<Longrightarrow> inside b x y \<Longrightarrow>
   nat y < length (grid b) \<and> length (grid b ! nat y) = nat (width b) \<and> nat x < nat (width b)"
  by (auto simp: board_ok_def inside_def list_all_length)

lemma board_ok_idx:
  "board_ok b \<Longrightarrow> inside b x y \<Longrightarrow>
   0 \<le> x \<and> 0 \<le> y \<and> y < int (length (grid b)) \<and> x < int (length (grid b ! nat y))"
  by (auto simp: board_ok_def inside_def list_all_length)

lemma board_ok_Board_init: "board_ok (Board_init w h hid)"
  by (simp add: board_ok_def Board_init_def list_all_iff)

section \<open>Collision test\<close>

lemma empty_cell_ok:
  "board_ok b \<Longrightarrow> empty_cell b x y = Inr (inside b x y \<and> grid b ! nat y ! nat x = None)"
  using board_ok_row[of b x y]
  by (auto simp: empty_cell_def py_getitem_nonneg inside_def)

lemma valid_loop_ok:
  "board_ok b \<Longrightarrow>
   valid_loop b cells =
     Inr (list_all (\<lambda>(x, y). inside b x y \<and> grid b ! nat y ! nat x = None) cells)"
  by (induction cells) (auto simp: empty_cell_ok)

lemma length_blocks: "length (blocks p) = 4"
proof -
  have "nat (rotation p mod 4) < 4" by simp
  then have "nat (rotation p mod 4) \<in> {0, 1, 2, 3}" by auto
  then show ?thesis
    by (cases "kind p") (auto simp: blocks_def Let_def)
qed

section \<open>Placing a piece\<close>

lemma board_ok_update:
  assumes "board_ok b" "inside b cx cy"
  shows "board_ok (b\<lparr>grid := (grid b)[nat cy := (grid b ! nat cy)[nat cx := v]]\<rparr>)"
  using assms board_ok_row[OF assms]
  by (auto simp: board_ok_def list_all_length nth_list_update)

lemma cell_update:
  assumes "board_ok b" "inside b cx cy" "inside b x y"
  shows "(grid b)[nat cy := (grid b ! nat cy)[nat cx := v]] ! nat y ! nat x =
           (if (x, y) = (cx, cy) then v else grid b ! nat y ! nat x)"
  using board_ok_row[OF assms(1,2)] board_ok_row[OF assms(1,3)] assms(2,3)
  by (auto simp: nth_list_update inside_def nat_eq_iff)

lemma place_loop_ok:
  "board_ok b \<Longrightarrow>
   \<exists>b'. place_loop b k cells = Inr b' \<and> board_ok b' \<and>
        width b' = width b \<and> height b' = height b \<and> hidden b' = hidden b \<and>
        (\<forall>x y. inside b x y \<longrightarrow>
           grid b' ! nat y ! nat x =
             (if (x, y) \<in> set cells then Some k else grid b ! nat y ! nat x))"
proof (induction cells arbitrary: b)
  case Nil
  then show ?case by simp
next
  case (Cons c cells)
  obtain cx cy where c: "c = (cx, cy)" by (cases c)
  show ?case
  proof (cases "inside b cx cy")
    case False
    from Cons.IH[OF Cons.prems] obtain b' where
      b': "place_loop b k cells = Inr b'" "board_ok b'" "width b' = width b"
          "height b' = height b" "hidden b' = hidden b"
          "\<forall>x y. inside b x y \<longrightarrow>
             grid b' ! nat y ! nat x =
               (if (x, y) \<in> set cells then Some k else grid b ! nat y ! nat x)"
      by blast
    have "\<forall>x y. inside b x y \<longrightarrow>
             grid b' ! nat y ! nat x =
               (if (x, y) \<in> set (c # cells) then Some k else grid b ! nat y ! nat x)"
      using b'(6) False c by auto
    with b' False c show ?thesis by simp
  next
    case True
    let ?b1 = "b\<lparr>grid := (grid b)[nat cy := (grid b ! nat cy)[nat cx := Some k]]\<rparr>"
    have ok1: "board_ok ?b1" by (rule board_ok_update[OF Cons.prems True])
    have ins: "\<And>x y. inside ?b1 x y = inside b x y" by (simp add: inside_def)
    from Cons.IH[OF ok1] obtain b' where
      b': "place_loop ?b1 k cells = Inr b'" "board_ok b'" "width b' = width b"
          "height b' = height b" "hidden b' = hidden b"
          "\<forall>x y. inside ?b1 x y \<longrightarrow>
             grid b' ! nat y ! nat x =
               (if (x, y) \<in> set cells then Some k else grid ?b1 ! nat y ! nat x)"
      by auto
    have step: "place_loop b k (c # cells) = place_loop ?b1 k cells"
      using True board_ok_idx[OF Cons.prems True]
      by (simp add: c py_getitem_nonneg py_setitem_nonneg)
    have cells': "\<forall>x y. inside b x y \<longrightarrow>
             grid b' ! nat y ! nat x =
               (if (x, y) \<in> set (c # cells) then Some k else grid b ! nat y ! nat x)"
    proof (intro allI impI)
      fix x y assume xy: "inside b x y"
      have "grid ?b1 ! nat y ! nat x =
              (if (x, y) = (cx, cy) then Some k else grid b ! nat y ! nat x)"
        using cell_update[OF Cons.prems True xy] by simp
      with b'(6) xy ins c
      show "grid b' ! nat y ! nat x =
              (if (x, y) \<in> set (c # cells) then Some k else grid b ! nat y ! nat x)"
        by auto
    qed
    from step b' cells' show ?thesis by simp
  qed
qed

section \<open>Clearing lines\<close>

lemma clear_loop_filter:
  "clear_loop rows n acc =
     (n + length (filter row_full rows), acc @ filter (\<lambda>row. \<not> row_full row) rows)"
  by (induction rows arbitrary: n acc) auto

lemma insert_loop_replicate:
  "insert_loop n w g = replicate n (replicate (nat w) None) @ g"
proof (induction n arbitrary: g)
  case 0
  show ?case by simp
next
  case (Suc n)
  have "replicate n (replicate (nat w) None) @ [replicate (nat w) (None :: kind option)]
        = replicate (Suc n) (replicate (nat w) None)"
    by (simp add: replicate_append_same)
  then show ?case using Suc by simp
qed

lemma clear_lines_eq:
  "clear_lines b =
     (length (filter row_full (grid b)),
      b\<lparr>grid := replicate (length (filter row_full (grid b))) (replicate (nat (width b)) None)
                 @ filter (\<lambda>row. \<not> row_full row) (grid b)\<rparr>)"
  by (simp add: clear_lines_def clear_loop_filter insert_loop_replicate)

lemma clear_lines_dims:
  "width (snd (clear_lines b)) = width b \<and> height (snd (clear_lines b)) = height b \<and>
   hidden (snd (clear_lines b)) = hidden b"
  by (simp add: clear_lines_eq)

lemma board_ok_clear_lines: "board_ok b \<Longrightarrow> board_ok (snd (clear_lines b))"
proof -
  assume ok: "board_ok b"
  have "length (filter row_full (grid b)) + length (filter (\<lambda>row. \<not> row_full row) (grid b))
        = length (grid b)"
    by (rule sum_length_filter_compl)
  with ok show ?thesis
    by (auto simp: clear_lines_eq board_ok_def list_all_iff)
qed

text \<open>
  Claim C6. For every grid, \<open>clear_lines\<close> returns the number of full rows (rows in
  which every cell is occupied), and the new grid is that many fresh empty rows of
  \<open>width\<close> cells followed by the rows that are not full, in their original order. The
  count is 0 and the grid unchanged when no row is full.
\<close>

theorem clear_lines_correct:
  "clear_lines b =
     (length (filter row_full (grid b)),
      b\<lparr>grid := replicate (length (filter row_full (grid b))) (replicate (nat (width b)) None)
                 @ filter (\<lambda>row. \<not> row_full row) (grid b)\<rparr>)"
  by (rule clear_lines_eq)

text \<open>
  The rows \<open>[full, full, partial, empty]\<close> become \<open>[empty, empty, partial, empty]\<close>, and
  2 is returned.
\<close>

theorem clear_lines_correct_witness:
  "clear_lines \<lparr>width = 2, height = 4, hidden = 0,
      grid = [[Some I_k, Some J_k], [Some O_k, Some O_k], [None, Some T_k], [None, None]]\<rparr>
   = (2, \<lparr>width = 2, height = 4, hidden = 0,
      grid = [[None, None], [None, None], [None, Some T_k], [None, None]]\<rparr>)"
  using clear_lines_correct[of "\<lparr>width = 2, height = 4, hidden = 0,
      grid = [[Some I_k, Some J_k], [Some O_k, Some O_k], [None, Some T_k], [None, None]]\<rparr>"]
  by (simp add: row_full_def numeral_2_eq_2)

section \<open>The shape of the grid\<close>

lemma board_ops_ok:
  "board_ok b \<Longrightarrow>
   \<exists>b'. board_ops b ops = Inr b' \<and> board_ok b' \<and>
        width b' = width b \<and> height b' = height b \<and> hidden b' = hidden b"
proof (induction ops arbitrary: b)
  case Nil
  then show ?case by simp
next
  case (Cons c ops)
  show ?case
  proof (cases c)
    case (Place p)
    from place_loop_ok[OF Cons.prems, of "kind p" "blocks p"] obtain b1 where
      b1: "place b p = Inr b1" "board_ok b1" "width b1 = width b" "height b1 = height b"
          "hidden b1 = hidden b"
      unfolding place_def by blast
    from Cons.IH[OF b1(2)] b1 Place show ?thesis by auto
  next
    case ClearLines
    from Cons.IH[OF board_ok_clear_lines[OF Cons.prems]] ClearLines clear_lines_dims[of b]
    show ?thesis by auto
  qed
qed

text \<open>
  Claim C10. The constructor gives a grid of \<open>height + hidden\<close> rows of \<open>width\<close> cells
  (no rows, or no cells, when the number is negative), and from a board of that shape
  every sequence of \<open>place\<close> and \<open>clear_lines\<close> calls, for any pieces, runs without an
  exception and ends in a board of the same dimensions whose grid has that shape.
\<close>

theorem board_shape_preserved:
  "board_ok (Board_init w h hid) \<and>
   (board_ok b \<longrightarrow>
      (\<exists>b'. board_ops b ops = Inr b' \<and>
            length (grid b') = nat (height b + hidden b) \<and>
            list_all (\<lambda>row. length row = nat (width b)) (grid b') \<and>
            width b' = width b \<and> height b' = height b \<and> hidden b' = hidden b))"
proof (intro conjI impI)
  show "board_ok (Board_init w h hid)" by (rule board_ok_Board_init)
next
  assume "board_ok b"
  from board_ops_ok[OF this, of ops] obtain b' where
    "board_ops b ops = Inr b'" "board_ok b'" "width b' = width b" "height b' = height b"
    "hidden b' = hidden b"
    by blast
  then show "\<exists>b'. board_ops b ops = Inr b' \<and>
            length (grid b') = nat (height b + hidden b) \<and>
            list_all (\<lambda>row. length row = nat (width b)) (grid b') \<and>
            width b' = width b \<and> height b' = height b \<and> hidden b' = hidden b"
    by (auto simp: board_ok_def)
qed

theorem board_shape_preserved_witness:
  "board_ok (Board_init 4 2 1) \<and>
   (\<exists>b'. board_ops (Board_init 4 2 1)
           [Place (Piece I_k 0 0 1), ClearLines, Place (Piece O_k 0 2 1)] = Inr b' \<and>
         length (grid b') = 3 \<and>
         list_all (\<lambda>row. length row = 4) (grid b') \<and>
         width b' = 4 \<and> height b' = 2 \<and> hidden b' = 1)"
  using board_shape_preserved[of 4 2 1 "Board_init 4 2 1"
      "[Place (Piece I_k 0 0 1), ClearLines, Place (Piece O_k 0 2 1)]"]
  by (simp add: Board_init_def)

section \<open>Collision soundness\<close>

text \<open>
  Claim C9. On a board whose grid has the constructor's shape, for every piece:
  \<open>valid\<close> returns true exactly when each of the piece's 4 cells \<open>(x, y)\<close> has
  \<open>0 \<le> x < width\<close>, \<open>0 \<le> y < height + hidden\<close> and is unoccupied; \<open>empty\<close> returns
  false for every position out of bounds; and \<open>place\<close> raises nothing, keeps the shape
  of the grid, and changes no cell but the piece's cells that are inside, which get the
  piece's kind: it writes nothing outside the grid, for valid and invalid pieces alike.
\<close>

theorem collision_soundness:
  assumes "board_ok b"
  shows "valid b p =
           Inr (\<forall>(x, y) \<in> set (blocks p).
                  0 \<le> x \<and> x < width b \<and> 0 \<le> y \<and> y < height b + hidden b \<and>
                  grid b ! nat y ! nat x = None) \<and>
         length (blocks p) = 4 \<and>
         (\<not> (0 \<le> x \<and> x < width b \<and> 0 \<le> y \<and> y < height b + hidden b) \<longrightarrow>
            empty_cell b x y = Inr False) \<and>
         (\<exists>b'. place b p = Inr b' \<and>
               length (grid b') = length (grid b) \<and>
               list_all (\<lambda>row. length row = nat (width b)) (grid b') \<and>
               width b' = width b \<and> height b' = height b \<and> hidden b' = hidden b \<and>
               (\<forall>x y. inside b x y \<longrightarrow>
                  grid b' ! nat y ! nat x =
                    (if (x, y) \<in> set (blocks p) then Some (kind p)
                     else grid b ! nat y ! nat x)))"
proof (intro conjI)
  show "valid b p =
           Inr (\<forall>(x, y) \<in> set (blocks p).
                  0 \<le> x \<and> x < width b \<and> 0 \<le> y \<and> y < height b + hidden b \<and>
                  grid b ! nat y ! nat x = None)"
    using valid_loop_ok[OF assms, of "blocks p"]
    by (simp add: valid_def list_all_iff inside_def case_prod_unfold)
  show "length (blocks p) = 4" by (rule length_blocks)
  show "\<not> (0 \<le> x \<and> x < width b \<and> 0 \<le> y \<and> y < height b + hidden b) \<longrightarrow>
            empty_cell b x y = Inr False"
    by (simp add: empty_cell_def inside_def)
  from place_loop_ok[OF assms, of "kind p" "blocks p"] obtain b' where
    b': "place b p = Inr b'" "board_ok b'" "width b' = width b" "height b' = height b"
        "hidden b' = hidden b"
        "\<forall>x y. inside b x y \<longrightarrow>
           grid b' ! nat y ! nat x =
             (if (x, y) \<in> set (blocks p) then Some (kind p) else grid b ! nat y ! nat x)"
    unfolding place_def by blast
  have "length (grid b') = length (grid b)"
    using b'(2-5) assms by (simp add: board_ok_def)
  moreover have "list_all (\<lambda>row. length row = nat (width b)) (grid b')"
    using b'(2,3) by (simp add: board_ok_def)
  ultimately show "\<exists>b'. place b p = Inr b' \<and>
               length (grid b') = length (grid b) \<and>
               list_all (\<lambda>row. length row = nat (width b)) (grid b') \<and>
               width b' = width b \<and> height b' = height b \<and> hidden b' = hidden b \<and>
               (\<forall>x y. inside b x y \<longrightarrow>
                  grid b' ! nat y ! nat x =
                    (if (x, y) \<in> set (blocks p) then Some (kind p)
                     else grid b ! nat y ! nat x))"
    using b' by blast
qed

theorem collision_soundness_witness:
  "board_ok (Board_init 4 2 1) \<and>
   valid (Board_init 4 2 1) (Piece O_k 0 2 1) = Inr False \<and>
   empty_cell (Board_init 4 2 1) 4 1 = Inr False \<and>
   place (Board_init 4 2 1) (Piece O_k 0 2 1) =
     Inr \<lparr>width = 4, height = 2, hidden = 1,
          grid = [[None, None, None, None], [None, None, None, Some O_k],
                  [None, None, None, Some O_k]]\<rparr>"
proof -
  have ok: "board_ok (Board_init 4 2 1)" by (rule board_ok_Board_init)
  have bl: "blocks (Piece O_k 0 2 1) = [(3, 1), (4, 1), (3, 2), (4, 2)]"
    by (simp add: blocks_def)
  from collision_soundness[OF ok, of "Piece O_k 0 2 1" 4 1]
  have v: "valid (Board_init 4 2 1) (Piece O_k 0 2 1) = Inr False"
    and e: "empty_cell (Board_init 4 2 1) 4 1 = Inr False"
    by (simp_all add: bl Board_init_def)
  have "place (Board_init 4 2 1) (Piece O_k 0 2 1) =
     Inr \<lparr>width = 4, height = 2, hidden = 1,
          grid = [[None, None, None, None], [None, None, None, Some O_k],
                  [None, None, None, Some O_k]]\<rparr>"
    by (simp add: place_def bl Board_init_def inside_def py_getitem_def py_setitem_def
        numeral_3_eq_3 numeral_2_eq_2 eval_nat_numeral)
  with ok v e show ?thesis by simp
qed

section \<open>Evaluating examples\<close>

lemmas eval_defs = valid_def blocks_def inside_def empty_cell_def py_getitem_def py_setitem_def
  Board_init_def example_game_def place_def Let_def

lemma mset_rotate_eq: "mset (rotate n xs) = mset xs"
proof -
  have "mset (take (n mod length xs) xs) + mset (drop (n mod length xs) xs) = mset xs"
    by (metis append_take_drop_id mset_append)
  then show ?thesis by (simp add: rotate_drop_take add.commute)
qed

lemma shuffle_ok_rotate: "shuffle_ok rotate_shuffle"
  by (simp add: shuffle_ok_def rotate_shuffle_def mset_rotate_eq)

section \<open>Rotation with wall kicks\<close>

lemma valid_returns: "board_ok b \<Longrightarrow> \<exists>v. valid b p = Inr v"
  by (simp add: valid_def valid_loop_ok)

lemma kick_loop_find:
  "board_ok (board s) \<Longrightarrow>
   kick_loop s np offs =
     Inr (case find (\<lambda>dx. valid (board s)
                       (Piece (kind np) (rotation np) (piece_x np + dx) (piece_y np))
                     = Inr True) offs of
            None \<Rightarrow> s
          | Some dx \<Rightarrow>
              s\<lparr>current :=
                  Some (Piece (kind np) (rotation np) (piece_x np + dx) (piece_y np))\<rparr>)"
proof (induction offs)
  case Nil
  show ?case by simp
next
  case (Cons dx offs)
  from valid_returns[OF Cons.prems] obtain v where
    v: "valid (board s) (Piece (kind np) (rotation np) (piece_x np + dx) (piece_y np)) = Inr v"
    by blast
  show ?case using Cons.IH[OF Cons.prems] v by (cases v) (simp_all add: Let_def)
qed

text \<open>
  Claim C8. For a current piece on a well-shaped board and every \<open>delta\<close>,
  \<open>rotate_current\<close> raises nothing; the candidates are the rotated piece (rotation
  \<open>(rotation + delta) mod 4\<close>) moved horizontally by 0, -1, +1, -2, +2, with \<open>y\<close>
  unchanged; the result is the state with \<open>current\<close> replaced by the candidate of the
  first offset in that order that the board validates, and the unchanged state when none
  of the five is valid.
\<close>

theorem rotation_kick_order:
  assumes "board_ok (board s)" and "current s = Some cur"
  shows "rotate_current delta s =
     Inr (case find (\<lambda>dx. valid (board s)
                       (Piece (kind cur) ((rotation cur + delta) mod 4) (piece_x cur + dx)
                          (piece_y cur)) = Inr True) [0, -1, 1, -2, 2] of
            None \<Rightarrow> s
          | Some dx \<Rightarrow>
              s\<lparr>current := Some (Piece (kind cur) ((rotation cur + delta) mod 4)
                                  (piece_x cur + dx) (piece_y cur))\<rparr>)"
  using kick_loop_find[OF assms(1), of "rotated cur delta" "[0, -1, 1, -2, 2]"] assms(2)
  by (simp add: rotate_current_def rotated_def)

text \<open>
  A vertical I piece against the right wall of a board 4 cells wide: the rotated piece is
  blocked at offset 0 and valid at offset -1, where it is committed.
\<close>

theorem rotation_kick_order_witness:
  "board_ok (Board_init 4 4 0) \<and>
   valid (Board_init 4 4 0) (Piece I_k 2 1 0) = Inr False \<and>
   valid (Board_init 4 4 0) (Piece I_k 2 0 0) = Inr True \<and>
   rotate_current 1 (example_game (Board_init 4 4 0) (Some (Piece I_k 1 1 0)) (Some O_k) [T_k])
     = Inr (example_game (Board_init 4 4 0) (Some (Piece I_k 2 0 0)) (Some O_k) [T_k])"
proof -
  have ok: "board_ok (board (example_game (Board_init 4 4 0) (Some (Piece I_k 1 1 0))
               (Some O_k) [T_k]))"
    by (simp add: example_game_def board_ok_Board_init)
  have cur: "current (example_game (Board_init 4 4 0) (Some (Piece I_k 1 1 0)) (Some O_k) [T_k])
               = Some (Piece I_k 1 1 0)"
    by (simp add: example_game_def)
  have v0: "valid (Board_init 4 4 0) (Piece I_k 2 1 0) = Inr False"
    by (simp add: eval_defs)
  have v1: "valid (Board_init 4 4 0) (Piece I_k 2 0 0) = Inr True"
    by (simp add: eval_defs eval_nat_numeral)
  have b: "board (example_game (Board_init 4 4 0) (Some (Piece I_k 1 1 0)) (Some O_k) [T_k])
             = Board_init 4 4 0"
    by (simp add: example_game_def)
  show ?thesis
    using rotation_kick_order[OF ok cur, of 1] v0 v1 board_ok_Board_init[of 4 4 0]
    by (simp add: b) (simp add: example_game_def)
qed

section \<open>Moving the current piece\<close>

text \<open>
  Claim C2, amended. \<open>move_current\<close> tests only whether there is a current piece; it does
  not read \<open>paused\<close> or \<open>gameover\<close>. With no current piece it returns false and the
  state unchanged. With a current piece whose translation by \<open>(dx, dy)\<close> is valid on the
  board, it commits exactly the translated piece and returns true, whatever the two flags
  are; when the translation is not valid it returns false and the state unchanged.
\<close>

theorem move_current_cases:
  "(current s = None \<longrightarrow> move_current dx dy s = Inr (False, s)) \<and>
   (current s = Some cur \<and>
    valid (board s) (Piece (kind cur) (rotation cur) (piece_x cur + dx) (piece_y cur + dy))
      = Inr True \<longrightarrow>
      move_current dx dy s =
        Inr (True, s\<lparr>current := Some (Piece (kind cur) (rotation cur) (piece_x cur + dx)
                                       (piece_y cur + dy))\<rparr>)) \<and>
   (current s = Some cur \<and>
    valid (board s) (Piece (kind cur) (rotation cur) (piece_x cur + dx) (piece_y cur + dy))
      = Inr False \<longrightarrow>
      move_current dx dy s = Inr (False, s))"
  by (simp add: move_current_def Let_def)

theorem move_current_cases_witness:
  "move_current 1 0 (example_game (Board_init 10 20 4) None (Some O_k) [T_k])
     = Inr (False, example_game (Board_init 10 20 4) None (Some O_k) [T_k]) \<and>
   move_current 1 0
       ((example_game (Board_init 10 20 4) (Some (Piece O_k 0 3 0)) (Some T_k) [])
          \<lparr>gameover := True, paused := True\<rparr>)
     = Inr (True, (example_game (Board_init 10 20 4) (Some (Piece O_k 0 4 0)) (Some T_k) [])
          \<lparr>gameover := True, paused := True\<rparr>) \<and>
   move_current 1 0 (example_game (Board_init 10 20 4) (Some (Piece O_k 0 7 0)) (Some T_k) [])
     = Inr (False, example_game (Board_init 10 20 4) (Some (Piece O_k 0 7 0)) (Some T_k) [])"
proof -
  have v1: "valid (Board_init 10 20 4) (Piece O_k 0 4 0) = Inr True"
    by (simp add: eval_defs eval_nat_numeral)
  have v2: "valid (Board_init 10 20 4) (Piece O_k 0 8 0) = Inr False"
    by (simp add: eval_defs eval_nat_numeral)
  show ?thesis
    using
      move_current_cases[where s = "example_game (Board_init 10 20 4) None (Some O_k) [T_k]"
        and dx = 1 and dy = 0]
      move_current_cases[where s = "(example_game (Board_init 10 20 4) (Some (Piece O_k 0 3 0))
           (Some T_k) [])\<lparr>gameover := True, paused := True\<rparr>"
        and cur = "Piece O_k 0 3 0" and dx = 1 and dy = 0]
      move_current_cases[where s = "example_game (Board_init 10 20 4) (Some (Piece O_k 0 7 0))
           (Some T_k) []" and cur = "Piece O_k 0 7 0" and dx = 1 and dy = 0]
      v1 v2
    by (simp add: example_game_def)
qed

text \<open>
  The claim as stated fails: in a paused state, and in a state with \<open>gameover\<close> set, a
  valid move to the right is committed and reported as a success.
\<close>

theorem move_while_paused_counterexample:
  "paused ((example_game (Board_init 10 20 4) (Some (Piece O_k 0 3 0)) (Some T_k) [])
             \<lparr>paused := True\<rparr>) \<and>
   move_current 1 0
       ((example_game (Board_init 10 20 4) (Some (Piece O_k 0 3 0)) (Some T_k) [])
          \<lparr>paused := True\<rparr>)
     = Inr (True, (example_game (Board_init 10 20 4) (Some (Piece O_k 0 4 0)) (Some T_k) [])
          \<lparr>paused := True\<rparr>) \<and>
   gameover ((example_game (Board_init 10 20 4) (Some (Piece O_k 0 3 0)) (Some T_k) [])
             \<lparr>gameover := True\<rparr>) \<and>
   move_current 1 0
       ((example_game (Board_init 10 20 4) (Some (Piece O_k 0 3 0)) (Some T_k) [])
          \<lparr>gameover := True\<rparr>)
     = Inr (True, (example_game (Board_init 10 20 4) (Some (Piece O_k 0 4 0)) (Some T_k) [])
          \<lparr>gameover := True\<rparr>)"
proof -
  have v1: "valid (Board_init 10 20 4) (Piece O_k 0 4 0) = Inr True"
    by (simp add: eval_defs eval_nat_numeral)
  show ?thesis using v1 by (simp add: move_current_def example_game_def)
qed

section \<open>Spawning\<close>

lemma shuffle_nonempty:
  assumes "shuffle_ok shuffle"
  shows "fst (shuffle r TETROMINOES_keys) \<noteq> []"
proof
  assume "fst (shuffle r TETROMINOES_keys) = []"
  then have "mset (fst (shuffle r TETROMINOES_keys)) = {#}" by simp
  with assms have "mset TETROMINOES_keys = {#}" by (simp add: shuffle_ok_def)
  then show False by (simp add: TETROMINOES_keys_def)
qed

lemma next_from_bag_nonempty:
  "bag s = k # rest \<Longrightarrow> next_from_bag shuffle s = Inr (k, s\<lparr>bag := rest\<rparr>)"
  by (simp add: next_from_bag_def)

lemma next_from_bag_empty:
  assumes "bag s = []" and "shuffle (rng s) TETROMINOES_keys = (k # rest, r)"
  shows "next_from_bag shuffle s = Inr (k, s\<lparr>bag := rest, rng := r\<rparr>)"
  using assms by (simp add: next_from_bag_def refill_bag_def)

lemma next_from_bag_returns:
  assumes "shuffle_ok shuffle"
  shows "\<exists>k bg r. next_from_bag shuffle s = Inr (k, s\<lparr>bag := bg, rng := r\<rparr>)"
proof (cases "bag s")
  case (Cons k rest)
  have "s\<lparr>bag := rest\<rparr> = s\<lparr>bag := rest, rng := rng s\<rparr>" by simp
  with next_from_bag_nonempty[OF Cons, of shuffle] show ?thesis by metis
next
  case Nil
  obtain ps r where sh: "shuffle (rng s) TETROMINOES_keys = (ps, r)"
    by (cases "shuffle (rng s) TETROMINOES_keys")
  with shuffle_nonempty[OF assms, of "rng s"] obtain k rest where "ps = k # rest"
    by (cases ps) auto
  with next_from_bag_empty[OF Nil, of shuffle k rest r] sh show ?thesis by blast
qed

lemma spawn_next_result:
  assumes "shuffle_ok shuffle"
    and "valid (board s) (Piece k 0 (width (board s) div 2 - 2) 0) = Inr ok"
    and "next_piece s = Some k \<or> (next_piece s = None \<and> (\<exists>s1. next_from_bag shuffle s = Inr (k, s1)))"
  shows "\<exists>k' bg r. spawn_next shuffle s =
           Inr (s\<lparr>bag := bg, rng := r, next_piece := Some k',
                  current := Some (Piece k 0 (width (board s) div 2 - 2) 0),
                  gameover := (gameover s \<or> \<not> ok)\<rparr>)"
proof -
  from next_from_bag_returns[OF assms(1), of s] obtain k0 bg0 r0 where
    n0: "next_from_bag shuffle s = Inr (k0, s\<lparr>bag := bg0, rng := r0\<rparr>)" by blast
  define s1 where "s1 = (if next_piece s = None then s\<lparr>bag := bg0, rng := r0\<rparr> else s)"
  have first: "(case next_piece s of None \<Rightarrow> next_from_bag shuffle s | Some k \<Rightarrow> Inr (k, s))
                 = Inr (k, s1)"
    using assms(3) n0 by (auto simp: s1_def)
  from next_from_bag_returns[OF assms(1), of s1] obtain k' bg r where
    n1: "next_from_bag shuffle s1 = Inr (k', s1\<lparr>bag := bg, rng := r\<rparr>)" by blast
  have s1b: "s1\<lparr>bag := bg, rng := r\<rparr> = s\<lparr>bag := bg, rng := r\<rparr>"
    by (simp add: s1_def)
  have "spawn_next shuffle s =
           Inr (s\<lparr>bag := bg, rng := r, next_piece := Some k',
                  current := Some (Piece k 0 (width (board s) div 2 - 2) 0),
                  gameover := (gameover s \<or> \<not> ok)\<rparr>)"
    unfolding spawn_next_def first
    using n1 assms(2) by (cases ok) (simp_all add: s1b Let_def)
  then show ?thesis by blast
qed

text \<open>
  Claim C4. \<open>spawn_next\<close> makes the piece of kind \<open>k\<close>, rotation 0, at
  \<open>(width div 2 - 2, 0)\<close>, where \<open>k\<close> is \<open>next_piece\<close> (or the first kind drawn from the
  bag when no piece is queued yet). When the board reports that piece as not valid,
  \<open>spawn_next\<close> returns with \<open>gameover\<close> set, the board unchanged, and \<open>current\<close> equal
  to the invalid piece.
\<close>

theorem spawn_collision:
  assumes "shuffle_ok shuffle"
    and "next_piece s = Some k \<or>
         (next_piece s = None \<and> (\<exists>s1. next_from_bag shuffle s = Inr (k, s1)))"
    and "valid (board s) (Piece k 0 (width (board s) div 2 - 2) 0) = Inr False"
  shows "\<exists>s'. spawn_next shuffle s = Inr s' \<and> gameover s' \<and> board s' = board s \<and>
              current s' = Some (Piece k 0 (width (board s) div 2 - 2) 0)"
proof -
  from spawn_next_result[OF assms(1) assms(3) assms(2)] obtain k' bg r where
    "spawn_next shuffle s =
           Inr (s\<lparr>bag := bg, rng := r, next_piece := Some k',
                  current := Some (Piece k 0 (width (board s) div 2 - 2) 0),
                  gameover := (gameover s \<or> \<not> False)\<rparr>)" by blast
  then show ?thesis by simp
qed

text \<open>
  A T piece spawned on a board with two settled cells in its spawn footprint: the spawn
  is invalid, \<open>gameover\<close> is set, the board is as before and \<open>current\<close> is the piece.
\<close>

theorem spawn_collision_witness:
  "shuffle_ok rotate_shuffle \<and>
   next_piece (example_game blocked_board None (Some T_k) [I_k]) = Some T_k \<and>
   valid blocked_board (Piece T_k 0 3 0) = Inr False \<and>
   (\<exists>s'. spawn_next rotate_shuffle (example_game blocked_board None (Some T_k) [I_k]) = Inr s' \<and>
         gameover s' \<and> board s' = blocked_board \<and> current s' = Some (Piece T_k 0 3 0))"
proof -
  have v: "valid blocked_board (Piece T_k 0 3 0) = Inr False"
    by (simp add: eval_defs blocked_board_def BOARD_WIDTH_def BOARD_HEIGHT_def HIDDEN_ROWS_def
        eval_nat_numeral)
  have b: "board (example_game blocked_board None (Some T_k) [I_k]) = blocked_board"
    and n: "next_piece (example_game blocked_board None (Some T_k) [I_k]) = Some T_k"
    by (simp_all add: example_game_def)
  have w: "width blocked_board div 2 - 2 = 3"
    by (simp add: blocked_board_def Board_init_def BOARD_WIDTH_def)
  from spawn_collision[OF shuffle_ok_rotate, of "example_game blocked_board None (Some T_k) [I_k]" T_k]
    v b n w
  have "\<exists>s'. spawn_next rotate_shuffle (example_game blocked_board None (Some T_k) [I_k]) = Inr s' \<and>
         gameover s' \<and> board s' = blocked_board \<and> current s' = Some (Piece T_k 0 3 0)"
    by simp
  with shuffle_ok_rotate v n show ?thesis by simp
qed

section \<open>Locking and scoring\<close>







subsection \<open>A lock that clears nothing\<close>






section \<open>After game over\<close>

lemma move_current_frame:
  "board_ok (board s) \<Longrightarrow> \<exists>m c. move_current dx dy s = Inr (m, s\<lparr>current := c\<rparr>)"
proof (cases "current s")
  case None
  then have "move_current dx dy s = Inr (False, s\<lparr>current := None\<rparr>)"
    by (simp add: move_current_def)
  then show ?thesis by blast
next
  case (Some cur)
  assume "board_ok (board s)"
  from valid_returns[OF this] obtain v where
    "valid (board s) (Piece (kind cur) (rotation cur) (piece_x cur + dx) (piece_y cur + dy)) = Inr v"
    by blast
  with Some have "move_current dx dy s =
      (if v then Inr (True, s\<lparr>current := Some (Piece (kind cur) (rotation cur) (piece_x cur + dx) (piece_y cur + dy))\<rparr>)
       else Inr (False, s\<lparr>current := Some cur\<rparr>))"
    by (simp add: move_current_def Let_def)
  then show ?thesis by (cases v) auto
qed

lemma rotate_current_frame:
  assumes "board_ok (board s)"
  shows "\<exists>c. rotate_current delta s = Inr (s\<lparr>current := c\<rparr>)"
proof (cases "current s")
  case None
  then have "rotate_current delta s = Inr (s\<lparr>current := None\<rparr>)"
    by (simp add: rotate_current_def)
  then show ?thesis by blast
next
  case (Some cur)
  have same: "s = s\<lparr>current := Some cur\<rparr>" using Some by simp
  have r: "rotate_current delta s = kick_loop s (rotated cur delta) [0, -1, 1, -2, 2]"
    using Some by (simp add: rotate_current_def)
  show ?thesis
    unfolding r kick_loop_find[OF assms]
    using same by (auto split: option.splits)
qed

lemma apply_op_gameover:
  assumes "gameover s" and "board_ok (board s)" and "c \<noteq> Lock"
  shows "\<exists>s'. apply_op shuffle float_pow float_sub c s = Inr s' \<and> score s' = score s \<and> level s' = level s \<and>
              lines s' = lines s \<and> board s' = board s \<and> gameover s'"
proof (cases c)
  case (Move dx dy)
  from move_current_frame[OF assms(2), of dx dy] obtain m cur where
    "move_current dx dy s = Inr (m, s\<lparr>current := cur\<rparr>)" by blast
  with Move assms(1) show ?thesis by simp
next
  case (Rotate delta)
  from rotate_current_frame[OF assms(2), of delta] obtain cur where
    "rotate_current delta s = Inr (s\<lparr>current := cur\<rparr>)" by blast
  with Rotate assms(1) show ?thesis by simp
next
  case Lock
  with assms(3) show ?thesis by simp
next
  case (Tick now)
  with assms(1) show ?thesis by (simp add: tick_def)
qed

text \<open>
  Claim C3, amended. From a state with \<open>gameover\<close> set and a well-shaped board, every
  finite sequence of \<open>move_current\<close>, \<open>rotate_current\<close> and \<open>tick\<close> calls runs without
  an exception and leaves \<open>score\<close>, \<open>level\<close>, \<open>lines\<close>, the board and the
  \<open>gameover\<close> flag as they were. \<open>lock_piece\<close> is not part of the statement: it has no
  guard of its own, and its callers (\<open>tick\<close>, and the run loop around \<open>hard_drop\<close>) test
  the flag before they reach it.
\<close>

theorem game_over_idempotence:
  assumes "gameover s" and "board_ok (board s)" and "Lock \<notin> set ops"
  shows "\<exists>s'. run_ops shuffle float_pow float_sub s ops = Inr s' \<and> score s' = score s \<and> level s' = level s \<and>
              lines s' = lines s \<and> board s' = board s \<and> gameover s'"
  using assms
proof (induction ops arbitrary: s)
  case Nil
  then show ?case by simp
next
  case (Cons c ops)
  from Cons.prems(3) have c: "c \<noteq> Lock" and rest: "Lock \<notin> set ops" by auto
  from apply_op_gameover[OF Cons.prems(1,2) c, of shuffle float_pow float_sub] obtain s1 where
    s1: "apply_op shuffle float_pow float_sub c s = Inr s1" "score s1 = score s" "level s1 = level s"
        "lines s1 = lines s" "board s1 = board s" "gameover s1"
    by blast
  from Cons.IH[OF s1(6) _ rest] s1(5) Cons.prems(2) obtain s' where
    "run_ops shuffle float_pow float_sub s1 ops = Inr s'" "score s' = score s1" "level s' = level s1"
    "lines s' = lines s1" "board s' = board s1" "gameover s'"
    by auto
  with s1 show ?case by simp
qed



lemma six_filled_place:
  "place six_filled_board (Piece I_k 0 6 22) =
     Inr ((Board_init 10 20 4)
            \<lparr>grid := replicate 23 (replicate 10 None) @ [replicate 6 (Some O_k) @ replicate 4 (Some I_k)]\<rparr>)"
  by (simp add: eval_defs six_filled_board_def BOARD_WIDTH_def BOARD_HEIGHT_def HIDDEN_ROWS_def
      eval_nat_numeral)


lemma six_filled_clear:
  "clear_lines ((Board_init 10 20 4)
            \<lparr>grid := replicate 23 (replicate 10 None)
                      @ [replicate 6 (Some O_k) @ replicate 4 (Some I_k)]\<rparr>)
     = (1, Board_init 10 20 4)"
  by (simp add: clear_lines_eq row_full_def Board_init_def eval_nat_numeral)

lemma width_Board_init: "width (Board_init w h hid) = w"
  by (simp add: Board_init_def)

lemma spawn_O_valid: "valid (Board_init 10 20 4) (Piece O_k 0 3 0) = Inr True"
  by (simp add: eval_defs eval_nat_numeral)

text \<open>
  The claim as stated fails for \<open>lock_piece\<close>: with \<open>gameover\<close> set, locking an I piece
  that completes the bottom row clears the row, so the grid changes, and the score goes
  from 0 to 40.
\<close>

theorem lock_after_game_over_counterexample:
  "gameover ((example_game six_filled_board (Some (Piece I_k 0 6 22)) (Some O_k) [T_k])
               \<lparr>gameover := True\<rparr>) \<and>
   run_ops rotate_shuffle small_pow exact_sub
     ((example_game six_filled_board (Some (Piece I_k 0 6 22)) (Some O_k) [T_k])
        \<lparr>gameover := True\<rparr>) [Lock]
     = Inr ((example_game (Board_init 10 20 4) (Some (Piece O_k 0 3 0)) (Some T_k) [])
              \<lparr>score := 40, lines := 1, gameover := True\<rparr>) \<and>
   score (example_game six_filled_board (Some (Piece I_k 0 6 22)) (Some O_k) [T_k]) = 0 \<and>
   grid six_filled_board \<noteq> grid (Board_init 10 20 4)"
proof -
  have g: "grid six_filled_board \<noteq> grid (Board_init 10 20 4)"
    by (simp add: six_filled_board_def Board_init_def BOARD_WIDTH_def BOARD_HEIGHT_def
        HIDDEN_ROWS_def eval_nat_numeral)
  have "run_ops rotate_shuffle small_pow exact_sub
     ((example_game six_filled_board (Some (Piece I_k 0 6 22)) (Some O_k) [T_k])
        \<lparr>gameover := True\<rparr>) [Lock]
     = Inr ((example_game (Board_init 10 20 4) (Some (Piece O_k 0 3 0)) (Some T_k) [])
              \<lparr>score := 40, lines := 1, gameover := True\<rparr>)"
    by (simp add: lock_piece_def example_game_def six_filled_place six_filled_clear award_def
        spawn_next_def next_from_bag_def spawn_O_valid
        width_Board_init Let_def)
  with g show ?thesis by (simp add: example_game_def)
qed


lemma board_ok_six_filled: "board_ok six_filled_board"
  by (simp add: board_ok_def six_filled_board_def Board_init_def BOARD_WIDTH_def
      BOARD_HEIGHT_def HIDDEN_ROWS_def eval_nat_numeral)

theorem game_over_idempotence_witness:
  "gameover ((example_game six_filled_board (Some (Piece I_k 0 6 22)) (Some O_k) [T_k])
               \<lparr>gameover := True\<rparr>) \<and>
   board_ok six_filled_board \<and>
   Lock \<notin> set [Move (-1) 0, Rotate 1, Tick 5, Move 0 1] \<and>
   (\<exists>s'. run_ops rotate_shuffle small_pow exact_sub
           ((example_game six_filled_board (Some (Piece I_k 0 6 22)) (Some O_k) [T_k])
              \<lparr>gameover := True\<rparr>) [Move (-1) 0, Rotate 1, Tick 5, Move 0 1] = Inr s' \<and>
         score s' = 0 \<and> level s' = 0 \<and> lines s' = 0 \<and> board s' = six_filled_board \<and>
         gameover s')"
  using game_over_idempotence[of
      "(example_game six_filled_board (Some (Piece I_k 0 6 22)) (Some O_k) [T_k])
         \<lparr>gameover := True\<rparr>"
      "[Move (-1) 0, Rotate 1, Tick 5, Move 0 1]" rotate_shuffle small_pow exact_sub]
    board_ok_six_filled
  by (simp add: example_game_def)

section \<open>The bag\<close>

lemma draws_bag:
  "bag s = xs \<Longrightarrow> draws shuffle (length xs) s = Inr (xs, s\<lparr>bag := []\<rparr>)"
proof (induction xs arbitrary: s)
  case Nil
  then have "s\<lparr>bag := []\<rparr> = s" by simp
  then show ?case by simp
next
  case (Cons k rest)
  have "bag (s\<lparr>bag := rest\<rparr>) = rest" by simp
  from Cons.IH[OF this] next_from_bag_nonempty[OF Cons.prems, of shuffle]
  show ?case by simp
qed

lemma draws_seven:
  assumes "shuffle_ok shuffle" and "bag s = []"
  shows "\<exists>perm r. shuffle (rng s) TETROMINOES_keys = (perm, r) \<and>
           mset perm = mset TETROMINOES_keys \<and>
           next_from_bag shuffle s = Inr (hd perm, s\<lparr>bag := tl perm, rng := r\<rparr>) \<and>
           draws shuffle 7 s = Inr (perm, s\<lparr>bag := [], rng := r\<rparr>)"
proof -
  obtain perm r where sh: "shuffle (rng s) TETROMINOES_keys = (perm, r)"
    by (cases "shuffle (rng s) TETROMINOES_keys")
  have ms: "mset perm = mset TETROMINOES_keys"
    using assms(1) sh by (metis fst_conv shuffle_ok_def)
  then have "size (mset perm) = 7" by (simp add: TETROMINOES_keys_def)
  then have len: "length perm = 7" by simp
  then obtain k rest where p: "perm = k # rest" and lr: "length rest = 6"
    by (cases perm) auto
  have n: "next_from_bag shuffle s = Inr (k, s\<lparr>bag := rest, rng := r\<rparr>)"
    using next_from_bag_empty[OF assms(2), of shuffle k rest r] sh p by simp
  have "draws shuffle (length rest) (s\<lparr>bag := rest, rng := r\<rparr>)
          = Inr (rest, s\<lparr>bag := rest, rng := r, bag := []\<rparr>)"
    by (rule draws_bag) simp
  then have d6: "draws shuffle 6 (s\<lparr>bag := rest, rng := r\<rparr>) = Inr (rest, s\<lparr>bag := [], rng := r\<rparr>)"
    by (simp add: lr)
  have e: "draws shuffle 7 s = draws shuffle (Suc 6) s"
    by (simp only: eval_nat_numeral)
  have "draws shuffle 7 s = Inr (perm, s\<lparr>bag := [], rng := r\<rparr>)"
    unfolding e by (subst draws.simps(2)) (simp add: n d6 p)
  with sh ms n p show ?thesis by simp
qed

lemma draws_add:
  "draws shuffle (m + n) s =
     bind_err (draws shuffle m s)
       (\<lambda>(ks, s1). bind_err (draws shuffle n s1) (\<lambda>(ks', s2). Inr (ks @ ks', s2)))"
proof (induction m arbitrary: s)
  case 0
  show ?case by (cases "draws shuffle n s") auto
next
  case (Suc m)
  show ?case
  proof (cases "next_from_bag shuffle s")
    case (Inl e)
    then show ?thesis by simp
  next
    case (Inr a)
    obtain k s1 where a: "a = (k, s1)" by (cases a)
    show ?thesis
    proof (cases "draws shuffle m s1")
      case (Inl e)
      with Inr a Suc.IH[of s1] show ?thesis by simp
    next
      case (Inr b)
      obtain ks s2 where b: "b = (ks, s2)" by (cases b)
      show ?thesis
      proof (cases "draws shuffle n s2")
        case (Inl e)
        with Inr b \<open>next_from_bag shuffle s = Inr a\<close> a Suc.IH[of s1] show ?thesis by simp
      next
        case (Inr c)
        obtain ks' s3 where "c = (ks', s3)" by (cases c)
        with Inr \<open>draws shuffle m s1 = Inr b\<close> b \<open>next_from_bag shuffle s = Inr a\<close> a Suc.IH[of s1]
        show ?thesis by simp
      qed
    qed
  qed
qed

lemma draws_runs:
  assumes "shuffle_ok shuffle"
  shows "bag s = [] \<Longrightarrow>
         \<exists>ks s'. draws shuffle (7 * n) s = Inr (ks, s') \<and> bag s' = [] \<and> length ks = 7 * n \<and>
           (\<forall>i<n. mset (take 7 (drop (7 * i) ks)) = mset TETROMINOES_keys)"
proof (induction n arbitrary: s)
  case 0
  then show ?case by simp
next
  case (Suc n)
  from draws_seven[OF assms Suc.prems] obtain perm r where
    p: "mset perm = mset TETROMINOES_keys"
       "draws shuffle 7 s = Inr (perm, s\<lparr>bag := [], rng := r\<rparr>)"
    by blast
  from p(1) have "size (mset perm) = 7" by (simp add: TETROMINOES_keys_def)
  then have len: "length perm = 7" by simp
  have "bag (s\<lparr>bag := [], rng := r\<rparr>) = []" by simp
  from Suc.IH[OF this] obtain ks s' where
    ih: "draws shuffle (7 * n) (s\<lparr>bag := [], rng := r\<rparr>) = Inr (ks, s')" "bag s' = []"
        "length ks = 7 * n" "\<forall>i<n. mset (take 7 (drop (7 * i) ks)) = mset TETROMINOES_keys"
    by blast
  have "7 * Suc n = 7 + 7 * n" by simp
  then have d: "draws shuffle (7 * Suc n) s = Inr (perm @ ks, s')"
    using draws_add[of shuffle 7 "7 * n" s] p(2) ih(1) by simp
  have runs: "\<forall>i<Suc n. mset (take 7 (drop (7 * i) (perm @ ks))) = mset TETROMINOES_keys"
  proof (intro allI impI)
    fix i assume i: "i < Suc n"
    show "mset (take 7 (drop (7 * i) (perm @ ks))) = mset TETROMINOES_keys"
    proof (cases i)
      case 0
      with len p(1) show ?thesis by simp
    next
      case (Suc j)
      with i have "j < n" by simp
      with ih(4) have "mset (take 7 (drop (7 * j) ks)) = mset TETROMINOES_keys" by blast
      moreover have "drop (7 * i) (perm @ ks) = drop (7 * j) ks"
        using len Suc by simp
      ultimately show ?thesis by simp
    qed
  qed
  from d ih(2,3) len runs show ?case by simp
qed


lemma distinct_keys: "distinct TETROMINOES_keys"
  by (simp add: TETROMINOES_keys_def)

lemma perm_keys_distinct: "mset xs = mset TETROMINOES_keys \<Longrightarrow> distinct xs"
  using distinct_keys mset_eq_imp_distinct_iff by blast

text \<open>
  Claim C5. With a \<open>shuffle\<close> that returns a rearrangement of its argument:
  \<open>next_from_bag\<close> on a non-empty bag pops the front kind and does not shuffle; on an
  empty bag it refills the bag with one shuffle of all 7 kinds, a list without repeats,
  and pops its front; and from an empty bag (the bag of a new game, and the bag at every
  refill boundary) any \<open>7 * n\<close> consecutive draws return, leave the bag empty again, and
  split into \<open>n\<close> runs of 7 that are each a rearrangement of the 7 kinds without repeats.
\<close>

theorem bag_fairness:
  assumes "shuffle_ok shuffle"
  shows "(bag s = k # rest \<longrightarrow> next_from_bag shuffle s = Inr (k, s\<lparr>bag := rest\<rparr>)) \<and>
         (bag s = [] \<longrightarrow>
            (\<exists>perm r. shuffle (rng s) TETROMINOES_keys = (perm, r) \<and>
               mset perm = mset TETROMINOES_keys \<and> distinct perm \<and>
               next_from_bag shuffle s = Inr (hd perm, s\<lparr>bag := tl perm, rng := r\<rparr>))) \<and>
         (bag s = [] \<longrightarrow>
            (\<exists>ks s'. draws shuffle (7 * n) s = Inr (ks, s') \<and> bag s' = [] \<and>
               length ks = 7 * n \<and>
               (\<forall>i<n. mset (take 7 (drop (7 * i) ks)) = mset TETROMINOES_keys \<and>
                      distinct (take 7 (drop (7 * i) ks)))))"
proof (intro conjI impI)
  assume "bag s = k # rest"
  then show "next_from_bag shuffle s = Inr (k, s\<lparr>bag := rest\<rparr>)"
    by (rule next_from_bag_nonempty)
next
  assume "bag s = []"
  from draws_seven[OF assms this] perm_keys_distinct
  show "\<exists>perm r. shuffle (rng s) TETROMINOES_keys = (perm, r) \<and>
               mset perm = mset TETROMINOES_keys \<and> distinct perm \<and>
               next_from_bag shuffle s = Inr (hd perm, s\<lparr>bag := tl perm, rng := r\<rparr>)"
    by blast
next
  assume "bag s = []"
  from draws_runs[OF assms this, of n] perm_keys_distinct
  show "\<exists>ks s'. draws shuffle (7 * n) s = Inr (ks, s') \<and> bag s' = [] \<and>
               length ks = 7 * n \<and>
               (\<forall>i<n. mset (take 7 (drop (7 * i) ks)) = mset TETROMINOES_keys \<and>
                      distinct (take 7 (drop (7 * i) ks)))"
    by blast
qed


text \<open>
  With the rotating shuffle, the first 14 draws of a new game are the 7 kinds in order
  and then the 7 kinds rotated by one.
\<close>

lemma draws_14:
  "draws rotate_shuffle 14 (example_game (Board_init 10 20 4) None None []) =
     Inr ([I_k, J_k, L_k, O_k, S_k, T_k, Z_k, J_k, L_k, O_k, S_k, T_k, Z_k, I_k],
          (example_game (Board_init 10 20 4) None None [])\<lparr>rng := 2\<rparr>)"
  by (simp add: eval_nat_numeral next_from_bag_def refill_bag_def rotate_shuffle_def
      TETROMINOES_keys_def example_game_def)


theorem bag_fairness_witness:
  "shuffle_ok rotate_shuffle \<and>
   bag (example_game (Board_init 10 20 4) None None [T_k, I_k]) = [T_k, I_k] \<and>
   next_from_bag rotate_shuffle (example_game (Board_init 10 20 4) None None [T_k, I_k])
     = Inr (T_k, example_game (Board_init 10 20 4) None None [I_k]) \<and>
   bag (example_game (Board_init 10 20 4) None None []) = [] \<and>
   (\<exists>ks s'. draws rotate_shuffle (7 * 2) (example_game (Board_init 10 20 4) None None [])
              = Inr (ks, s') \<and>
            bag s' = [] \<and> length ks = 14 \<and>
            mset (take 7 ks) = mset TETROMINOES_keys \<and>
            mset (take 7 (drop 7 ks)) = mset TETROMINOES_keys) \<and>
   draws rotate_shuffle 14 (example_game (Board_init 10 20 4) None None []) =
     Inr ([I_k, J_k, L_k, O_k, S_k, T_k, Z_k, J_k, L_k, O_k, S_k, T_k, Z_k, I_k],
          (example_game (Board_init 10 20 4) None None [])\<lparr>rng := 2\<rparr>)"
proof -
  have b1: "bag (example_game (Board_init 10 20 4) None None [T_k, I_k]) = [T_k, I_k]"
    and b0: "bag (example_game (Board_init 10 20 4) None None []) = []"
    by (simp_all add: example_game_def)
  have upd: "(example_game (Board_init 10 20 4) None None [T_k, I_k])\<lparr>bag := [I_k]\<rparr>
               = example_game (Board_init 10 20 4) None None [I_k]"
    by (simp add: example_game_def)
  from bag_fairness[OF shuffle_ok_rotate,
      of "example_game (Board_init 10 20 4) None None [T_k, I_k]" T_k "[I_k]"] b1 upd
  have a: "next_from_bag rotate_shuffle (example_game (Board_init 10 20 4) None None [T_k, I_k])
     = Inr (T_k, example_game (Board_init 10 20 4) None None [I_k])"
    by simp
  from bag_fairness[OF shuffle_ok_rotate,
      of "example_game (Board_init 10 20 4) None None []" _ _ 2] b0
  obtain ks s' where
    r: "draws rotate_shuffle (7 * 2) (example_game (Board_init 10 20 4) None None [])
          = Inr (ks, s')" "bag s' = []" "length ks = 7 * 2"
       "\<forall>i<2. mset (take 7 (drop (7 * i) ks)) = mset TETROMINOES_keys \<and>
               distinct (take 7 (drop (7 * i) ks))"
    by blast
  have "(0::nat) < 2" and "(1::nat) < 2" by simp_all
  with r(4) have "mset (take 7 (drop (7 * 0) ks)) = mset TETROMINOES_keys"
    and "mset (take 7 (drop (7 * 1) ks)) = mset TETROMINOES_keys"
    by blast+
  with r(1-3) have c: "\<exists>ks s'. draws rotate_shuffle (7 * 2)
              (example_game (Board_init 10 20 4) None None []) = Inr (ks, s') \<and>
            bag s' = [] \<and> length ks = 14 \<and>
            mset (take 7 ks) = mset TETROMINOES_keys \<and>
            mset (take 7 (drop 7 ks)) = mset TETROMINOES_keys"
    by auto
  from shuffle_ok_rotate b1 a b0 c draws_14 show ?thesis by blast
qed

section \<open>Locking into the hidden rows\<close>

lemmas board_consts = BOARD_WIDTH_def BOARD_HEIGHT_def HIDDEN_ROWS_def

lemma column_place:
  "place column_board (Piece I_k 1 (-2) 0) = Inr full_column_board"
  by (simp add: eval_defs column_board_def full_column_board_def board_consts eval_nat_numeral)

lemma column_clear: "clear_lines full_column_board = (0, full_column_board)"
  by (simp add: clear_lines_eq row_full_def full_column_board_def Board_init_def board_consts
      eval_nat_numeral)

lemma column_spawn_valid: "valid full_column_board (Piece O_k 0 3 0) = Inr True"
  by (simp add: eval_defs full_column_board_def board_consts eval_nat_numeral)

lemma column_move_blocked: "valid column_board (Piece I_k 1 (-2) 1) = Inr False"
  by (simp add: eval_defs column_board_def board_consts eval_nat_numeral)

lemma column_game_over: "game_over full_column_board = Inr True"
  by (simp add: game_over_def full_column_board_def Board_init_def board_consts py_getitem_def
      upto.simps eval_nat_numeral)

lemma width_full_column: "width full_column_board = 10"
  by (simp add: full_column_board_def Board_init_def board_consts)

lemma example_game_flags:
  "paused (example_game b cur nxt bg) = False"
  "gameover (example_game b cur nxt bg) = False"
  "drop_interval (example_game b cur nxt bg) = 1"
  "last_drop_time (example_game b cur nxt bg) = 0"
  by (simp_all add: example_game_def)

text \<open>
  Claim C1 says that a lock which leaves an occupied cell in the hidden rows sets
  \<open>gameover\<close>, whatever the spawn does. \<open>lock_piece\<close> never calls \<open>Board.game_over\<close>:
  the flag is set by \<open>spawn_next\<close> alone. Here a sixth I piece stands in column 0 on
  top of five others, in rows 0 to 3, all hidden. The move down is blocked, so \<open>tick\<close>
  locks it; no row is full; the O piece spawns at \<open>(3, 0)\<close> away from column 0;
  \<open>Board.game_over\<close> is true of the board, and \<open>gameover\<close> stays false.
\<close>

theorem lock_out_not_detected:
  "lock_piece rotate_shuffle small_pow
       (example_game column_board (Some (Piece I_k 1 (-2) 0)) (Some O_k) [T_k])
     = Inr (example_game full_column_board (Some (Piece O_k 0 3 0)) (Some T_k) []) \<and>
   tick rotate_shuffle small_pow exact_sub 5
       (example_game column_board (Some (Piece I_k 1 (-2) 0)) (Some O_k) [T_k])
     = Inr ((example_game full_column_board (Some (Piece O_k 0 3 0)) (Some T_k) [])
              \<lparr>last_drop_time := 5\<rparr>) \<and>
   game_over full_column_board = Inr True \<and>
   gameover (example_game full_column_board (Some (Piece O_k 0 3 0)) (Some T_k) []) = False"
proof -
  have l: "lock_piece rotate_shuffle small_pow
       (example_game column_board (Some (Piece I_k 1 (-2) 0)) (Some O_k) [T_k])
     = Inr (example_game full_column_board (Some (Piece O_k 0 3 0)) (Some T_k) [])"
    by (simp add: lock_piece_def example_game_def column_place column_clear
        spawn_next_def next_from_bag_def column_spawn_valid width_full_column Let_def)
  have m: "move_current 0 1
       (example_game column_board (Some (Piece I_k 1 (-2) 0)) (Some O_k) [T_k])
     = Inr (False, example_game column_board (Some (Piece I_k 1 (-2) 0)) (Some O_k) [T_k])"
    using column_move_blocked by (simp add: move_current_def example_game_def)
  have t: "tick rotate_shuffle small_pow exact_sub 5
       (example_game column_board (Some (Piece I_k 1 (-2) 0)) (Some O_k) [T_k])
     = Inr ((example_game full_column_board (Some (Piece O_k 0 3 0)) (Some T_k) [])
              \<lparr>last_drop_time := 5\<rparr>)"
    by (simp add: tick_def m l example_game_flags exact_sub_def)
  from l t column_game_over show ?thesis by (simp add: example_game_flags)
qed

end
